theory Spec2Isabelle
  imports Complex_Main "HOL-Library.AList"
begin

section \<open>Run-length analysis of binary sequences (RQA.py)\<close>

subsection \<open>The run-length distribution\<close>

text \<open>
  \<^verbatim>\<open>Runs\<close> is a Python dictionary \<^verbatim>\<open>{length: count}\<close>. It is modelled as an
  association list with distinct keys, in insertion order; two dictionaries are equal in
  Python when they are equal as maps (\<open>map_of\<close>).
\<close>

type_synonym runs = "(nat \<times> nat) list"

definition keys :: "runs \<Rightarrow> nat list" where
  "keys Runs = map fst Runs"

definition lookup :: "runs \<Rightarrow> nat \<Rightarrow> nat" where
  \<comment> \<open>\<^verbatim>\<open>Runs[c]\<close>; the source only reads keys it iterates over or has just inserted.\<close>
  "lookup Runs c = the (map_of Runs c)"

definition count_of :: "runs \<Rightarrow> nat \<Rightarrow> nat" where
  \<comment> \<open>the count held under the length \<open>c\<close>, 0 when \<open>c\<close> is not a key\<close>
  "count_of Runs c = (case map_of Runs c of None \<Rightarrow> 0 | Some n \<Rightarrow> n)"

definition record_run :: "nat \<Rightarrow> runs \<Rightarrow> runs" where
  \<comment> \<open>\<^verbatim>\<open>if not count in Runs: Runs[count] = 0\<close> followed by \<^verbatim>\<open>Runs[count] += 1\<close>\<close>
  "record_run count Runs =
     (let Runs1 = (if count \<notin> set (keys Runs) then AList.update count 0 Runs else Runs)
      in AList.update count (lookup Runs1 count + 1) Runs1)"

subsection \<open>getContinuousRuns\<close>

datatype scan_state = IN_ZEROS | IN_ONES

text \<open>
  The body of the \<^verbatim>\<open>for\<close> loop of \<^verbatim>\<open>getContinuousRuns\<close>, as a recursion over the
  remaining elements, with the loop variables \<^verbatim>\<open>state\<close>, \<^verbatim>\<open>count\<close> and
  \<^verbatim>\<open>Runs\<close> passed along. An element that is neither 0 nor 1 leaves all three
  unchanged, as in the source.
\<close>

fun scan :: "scan_state \<Rightarrow> nat \<Rightarrow> runs \<Rightarrow> real list \<Rightarrow> scan_state \<times> nat \<times> runs" where
  "scan state count Runs [] = (state, count, Runs)"
| "scan state count Runs (xi # x) =
     (case state of
        IN_ZEROS \<Rightarrow>
          (if xi = 1 then scan IN_ONES 1 Runs x
           else scan IN_ZEROS count Runs x)
      | IN_ONES \<Rightarrow>
          (if xi = 0 then scan IN_ZEROS count (record_run count Runs) x
           else if xi = 1 then scan IN_ONES (count + 1) Runs x
           else scan IN_ONES count Runs x))"

definition getContinuousRuns :: "real list \<Rightarrow> runs" where
  "getContinuousRuns x = snd (snd (scan IN_ZEROS 0 [] x))"

definition binary_seq :: "real list \<Rightarrow> bool" where
  "binary_seq x = list_all (\<lambda>v. v = 0 \<or> v = 1) x"

text \<open>
  The specification's reading of the distribution: the lengths of the maximal runs of 1s
  that are followed by a 0, from left to right. A run that reaches the end of the
  sequence contributes nothing.
\<close>

function spec_closed_runs :: "real list \<Rightarrow> nat list" where
  "spec_closed_runs [] = []"
| "spec_closed_runs (v # x) =
     (if v = 1 then
        (if dropWhile (\<lambda>y. y = 1) x = [] then []
         else Suc (length (takeWhile (\<lambda>y. y = 1) x)) # spec_closed_runs (dropWhile (\<lambda>y. y = 1) x))
      else spec_closed_runs x)"
  by pat_completeness auto
termination
  by (relation "measure length") (auto simp: less_Suc_eq_le length_dropWhile_le)

section \<open>Matrices\<close>

text \<open>
  A two-dimensional numpy array: its shape and its rows. An entry is read by index;
  every definition below reads within the shape only.
\<close>

record matrix =
  nrows :: nat
  ncols :: nat
  rows :: "real list list"

datatype error = ValueError | IndexError | TypeError

definition ent :: "matrix \<Rightarrow> nat \<Rightarrow> nat \<Rightarrow> real" where
  "ent A i j = rows A ! i ! j"

definition mk_matrix :: "nat \<Rightarrow> nat \<Rightarrow> (nat \<Rightarrow> nat \<Rightarrow> real) \<Rightarrow> matrix" where
  "mk_matrix n m f = \<lparr>nrows = n, ncols = m, rows = map (\<lambda>i. map (f i) [0..<m]) [0..<n]\<rparr>"

definition wf_matrix :: "matrix \<Rightarrow> bool" where
  "wf_matrix A = (length (rows A) = nrows A \<and> list_all (\<lambda>r. length r = ncols A) (rows A))"

definition binary_matrix :: "matrix \<Rightarrow> bool" where
  "binary_matrix A = list_all binary_seq (rows A)"

definition np_zeros :: "nat \<Rightarrow> nat \<Rightarrow> matrix" where
  "np_zeros n m = mk_matrix n m (\<lambda>i j. 0)"

definition np_ones :: "nat \<Rightarrow> nat \<Rightarrow> matrix" where
  "np_ones n m = mk_matrix n m (\<lambda>i j. 1)"

definition flatten :: "matrix \<Rightarrow> real list" where
  \<comment> \<open>\<^verbatim>\<open>D.flatten()\<close>: numpy's default order is row-major, one full row after the other\<close>
  "flatten A = concat (rows A)"

definition diagonal :: "matrix \<Rightarrow> nat \<Rightarrow> real list" where
  \<comment> \<open>\<^verbatim>\<open>np.diagonal(R, k)\<close> for an offset \<open>k \<ge> 0\<close>: the entries \<open>R[r][r + k]\<close>\<close>
  "diagonal A k = map (\<lambda>r. ent A r (r + k)) [0..<min (nrows A) (ncols A - k)]"

definition column :: "matrix \<Rightarrow> nat \<Rightarrow> real list" where
  "column A j = map (\<lambda>i. ent A i j) [0..<nrows A]"

section \<open>Vertical and diagonal run extraction (RQA.py)\<close>

definition pad_zero :: "matrix \<Rightarrow> matrix" where
  \<comment> \<open>\<^verbatim>\<open>D = np.zeros((N+1, N+1)); D[0:N, 0:N] = R\<close>. The assignment needs \<open>R\<close> of shape
      \<open>(N, N)\<close>, or \<open>(N, 1)\<close>, which numpy broadcasts along the columns.\<close>
  "pad_zero R =
     (let N = nrows R
      in mk_matrix (N + 1) (N + 1)
           (\<lambda>i j. if i < N \<and> j < N then ent R i (if ncols R = N then j else 0) else 0))"

definition getRQAVerts :: "matrix \<Rightarrow> error + runs" where
  "getRQAVerts R =
     (if ncols R = nrows R \<or> ncols R = 1
      then Inr (getContinuousRuns (flatten (pad_zero R)))
      else Inl ValueError)"

definition getRQADiags :: "matrix \<Rightarrow> runs" where
  "getRQADiags R = getContinuousRuns (concat (map (\<lambda>i. diagonal R i @ [0]) [1..<ncols R]))"

text \<open>
  The specification's reading of the vertical extraction: each column of the padded
  matrix is run-length-encoded on its own and the distributions are merged by summing
  the counts per length.
\<close>

definition spec_merge_runs :: "runs \<Rightarrow> runs \<Rightarrow> runs" where
  "spec_merge_runs A B = map (\<lambda>c. (c, count_of A c + count_of B c)) (remdups (keys A @ keys B))"

definition spec_column_runs :: "matrix \<Rightarrow> runs" where
  "spec_column_runs R =
     foldl spec_merge_runs [] (map (\<lambda>j. getContinuousRuns (column (pad_zero R) j)) [0..<nrows R + 1])"

section \<open>RQA statistics (RQA.py)\<close>

definition zeroDenom :: "real \<Rightarrow> real" where
  "zeroDenom x = (if x = 0 then 1.0 else x)"

definition sum_lengths_from :: "runs \<Rightarrow> real \<Rightarrow> nat" where
  \<comment> \<open>\<^verbatim>\<open>np.sum(np.array([c*Runs[c] for c in Runs if c >= m]))\<close>\<close>
  "sum_lengths_from Runs m = sum_list (map (\<lambda>c. c * lookup Runs c) (filter (\<lambda>c. real c \<ge> m) (keys Runs)))"

definition sum_lengths :: "runs \<Rightarrow> nat" where
  \<comment> \<open>\<^verbatim>\<open>np.sum(np.array([c*Runs[c] for c in Runs]))\<close>\<close>
  "sum_lengths Runs = sum_list (map (\<lambda>c. c * lookup Runs c) (keys Runs))"

definition num_runs_from :: "runs \<Rightarrow> real \<Rightarrow> nat" where
  \<comment> \<open>\<^verbatim>\<open>np.sum(np.array([Runs[c] for c in Runs if c >= m]))\<close>\<close>
  "num_runs_from Runs m = sum_list (map (lookup Runs) (filter (\<lambda>c. real c \<ge> m) (keys Runs)))"

definition num_runs :: "runs \<Rightarrow> nat" where
  \<comment> \<open>\<^verbatim>\<open>np.sum(np.array([Runs[c] for c in Runs]))\<close>\<close>
  "num_runs Runs = sum_list (map (lookup Runs) (keys Runs))"

definition above_diagonal :: "matrix \<Rightarrow> real list" where
  \<comment> \<open>\<^verbatim>\<open>R[I > J]\<close> with \<^verbatim>\<open>[I, J] = np.meshgrid(np.arange(N), np.arange(N))\<close>: numpy's
      meshgrid gives \<open>I[a][b] = b\<close> and \<open>J[a][b] = a\<close>, so the mask keeps the entries whose
      column \<open>b\<close> is greater than their row \<open>a\<close>, in row-major order.\<close>
  "above_diagonal R =
     concat (map (\<lambda>a. map (\<lambda>b. ent R a b) (filter (\<lambda>b. b > a) [0..<nrows R])) [0..<nrows R])"

definition max_length :: "runs \<Rightarrow> nat" where
  \<comment> \<open>\<^verbatim>\<open>Lmax = 0; if len(Runs) > 0: Lmax = np.max(np.array([c for c in Runs]))\<close>\<close>
  "max_length Runs = (if length Runs > 0 then Max (set (keys Runs)) else 0)"

definition entropy :: "runs \<Rightarrow> real \<Rightarrow> real \<Rightarrow> real" where
  \<comment> \<open>\<^verbatim>\<open>ps = np.array([Diags[c]/NDiags for c in Diags if c >= dmin]); -np.sum(ps*np.log(ps))\<close>\<close>
  "entropy Runs m NRuns =
     - sum_list (map (\<lambda>p. p * ln p)
         (map (\<lambda>c. real (lookup Runs c) / NRuns) (filter (\<lambda>c. real c \<ge> m) (keys Runs))))"

record rqa_stats =
  RR :: "real option"
  DET :: real
  LAM :: real
  RATIO :: real
  L :: real
  TT :: real
  ENTR :: real
  Lmax :: nat
  Vmax :: nat

definition recurrence_rate :: "matrix \<Rightarrow> real option" where
  \<comment> \<open>\<^verbatim>\<open>np.sum(R == 1)/float(R.size)\<close>; for an empty matrix numpy yields NaN, which is
      \<open>None\<close> here\<close>
  "recurrence_rate R =
     (if nrows R * ncols R = 0 then None
      else Some (real (length (filter (\<lambda>v. v = 1) (flatten R))) / real (nrows R * ncols R)))"

definition getRQAStats :: "matrix \<Rightarrow> real \<Rightarrow> real \<Rightarrow> error + rqa_stats" where
  \<comment> \<open>The mask \<open>I > J\<close> has shape \<open>(N, N)\<close>; indexing \<open>R\<close> with it raises unless \<open>R\<close> has
      that shape too.\<close>
  "getRQAStats R dmin vmin =
     (case getRQAVerts R of
        Inl e \<Rightarrow> Inl e
      | Inr Verts \<Rightarrow>
          (let Diags = getRQADiags R;
               SumDiags = real (sum_lengths_from Diags dmin);
               SumVerts = real (sum_lengths_from Verts vmin);
               NDiags = zeroDenom (real (num_runs_from Diags dmin));
               NVerts = zeroDenom (real (num_runs_from Verts vmin))
           in if ncols R \<noteq> nrows R then Inl IndexError
              else Inr \<lparr>RR = recurrence_rate R,
                        DET = SumDiags / zeroDenom (sum_list (above_diagonal R)),
                        LAM = SumVerts / zeroDenom (real (sum_lengths Verts)),
                        RATIO = real (nrows R * ncols R) * SumDiags / zeroDenom (real ((num_runs Diags)\<^sup>2)),
                        L = SumDiags / NDiags,
                        TT = SumVerts / NVerts,
                        ENTR = entropy Diags dmin NDiags,
                        Lmax = max_length Diags,
                        Vmax = max_length Verts\<rparr>))"

section \<open>Recurrence binarisation (RQA.py)\<close>

text \<open>
  \<^verbatim>\<open>Kappa\<close> is a Python number, an \<^verbatim>\<open>int\<close> or a \<^verbatim>\<open>float\<close>. For a
  \<^verbatim>\<open>float\<close> the product \<^verbatim>\<open>Kappa*M\<close> is the product of two doubles, rounded to a
  double by the machine; it differs from the product over the reals (the double nearest to
  0.3, times 5, is the double 1.5). The double product is a parameter, \<open>float_mul\<close>, of
  which nothing is assumed. For an \<^verbatim>\<open>int\<close> the product is exact. \<^verbatim>\<open>np.round\<close> rounds
  halves to the even neighbour.
\<close>

datatype pynum = PyInt int | PyFloat real

fun num_val :: "pynum \<Rightarrow> real" where
  "num_val (PyInt k) = real_of_int k"
| "num_val (PyFloat f) = f"

definition np_round :: "real \<Rightarrow> int" where
  "np_round x =
     (let f = \<lfloor>x\<rfloor>; d = x - real_of_int f
      in if d < 1/2 then f else if d > 1/2 then f + 1 else if even f then f else f + 1)"

fun py_mul :: "(real \<Rightarrow> real \<Rightarrow> real) \<Rightarrow> pynum \<Rightarrow> nat \<Rightarrow> real" where
  \<comment> \<open>\<^verbatim>\<open>Kappa*M\<close>\<close>
  "py_mul float_mul (PyInt k) M = real_of_int (k * int M)"
| "py_mul float_mul (PyFloat f) M = float_mul f (real M)"

definition neighbour_count :: "(real \<Rightarrow> real \<Rightarrow> real) \<Rightarrow> pynum \<Rightarrow> nat \<Rightarrow> error + int" where
  \<comment> \<open>\<^verbatim>\<open>NNeighbs\<close> for \<^verbatim>\<open>Kappa != 0\<close>; a \<^verbatim>\<open>float\<close> used as a partition index and as a
      slice bound is rejected by numpy\<close>
  "neighbour_count float_mul Kappa M =
     (if num_val Kappa < 1 then Inr (np_round (py_mul float_mul Kappa M))
      else (case Kappa of PyInt k \<Rightarrow> Inr k | PyFloat f \<Rightarrow> Inl TypeError))"

text \<open>
  \<^verbatim>\<open>np.argpartition(D, k, 1)\<close> is numpy's; it works on each row on its own and is a
  parameter here: \<open>argpartition r k\<close> is the index list numpy returns for the row \<open>r\<close>.
  Its contract for \<open>k < length r\<close>: a permutation of the column indices whose \<open>k\<close>-th
  element is in its sorted place, no larger value before it and no smaller one after it;
  the order within the two parts is not specified.
\<close>

definition argpartition_ok :: "(real list \<Rightarrow> nat \<Rightarrow> nat list) \<Rightarrow> real list \<Rightarrow> nat \<Rightarrow> bool" where
  "argpartition_ok argpartition r k =
     (let p = argpartition r k
      in length p = length r \<and> distinct p \<and> list_all (\<lambda>j. j < length r) p \<and>
         list_all (\<lambda>a. r ! (p ! a) \<le> r ! (p ! k)) [0..<k] \<and>
         list_all (\<lambda>b. r ! (p ! k) \<le> r ! (p ! b)) [k + 1..<length r])"

definition coo_toarray :: "(real \<times> nat \<times> nat) list \<Rightarrow> nat \<Rightarrow> nat \<Rightarrow> matrix" where
  \<comment> \<open>\<^verbatim>\<open>sparse.coo_matrix((V, (I, J)), shape=(N, M)).toarray()\<close>: entries with the same
      position are summed\<close>
  "coo_toarray entries N M =
     mk_matrix N M (\<lambda>i j. sum_list (map fst (filter (\<lambda>(v, i', j'). i' = i \<and> j' = j) entries)))"

definition CSMToBinary ::
  "(real \<Rightarrow> real \<Rightarrow> real) \<Rightarrow> (real list \<Rightarrow> nat \<Rightarrow> nat list) \<Rightarrow> matrix \<Rightarrow> pynum \<Rightarrow> error + matrix" where
  \<comment> \<open>numpy raises when the partition index is not below \<open>M\<close> on an array that is
      not empty, and when the number of repetitions given to \<^verbatim>\<open>np.tile\<close> is negative;
      scipy raises when the column indices and the data differ in number\<close>
  "CSMToBinary float_mul argpartition D Kappa =
     (let N = nrows D; M = ncols D
      in if num_val Kappa = 0 then Inr (np_ones N M)
         else (case neighbour_count float_mul Kappa M of
                 Inl e \<Rightarrow> Inl e
               | Inr NNeighbs \<Rightarrow>
                   if NNeighbs < 0 \<or> (N * M \<noteq> 0 \<and> int M \<le> NNeighbs) then Inl ValueError
                   else (let k = nat NNeighbs;
                             J = map (\<lambda>r. take k (argpartition r k)) (rows D);
                             I = map (\<lambda>i. replicate k i) [0..<N];
                             V = replicate (N * k) 1
                         in if length (concat J) \<noteq> length V then Inl ValueError
                            else Inr (coo_toarray (zip V (zip (concat I) (concat J))) N M))))"

section \<open>Cross-similarity and the persistence score (GeometricScoring.py)\<close>

definition getCSM :: "matrix \<Rightarrow> matrix \<Rightarrow> error + matrix" where
  \<comment> \<open>over the reals; \<^verbatim>\<open>X.dot(Y.T)\<close> raises when the dimensions of the points differ\<close>
  "getCSM X Y =
     (if ncols X \<noteq> ncols Y then Inl ValueError
      else Inr (mk_matrix (nrows X) (nrows Y)
             (\<lambda>i j. let C = sum_list (map (\<lambda>k. (ent X i k)\<^sup>2) [0..<ncols X])
                            + sum_list (map (\<lambda>k. (ent Y j k)\<^sup>2) [0..<ncols Y])
                            - 2 * sum_list (map (\<lambda>k. ent X i k * ent Y j k) [0..<ncols X])
                     in sqrt (if C < 0 then 0 else C))))"

record pers_block =
  block_D :: matrix
  block_P :: real
  block_I :: "(real \<times> real) list"

text \<open>
  \<^verbatim>\<open>getSlidingWindow\<close> is built on routines outside the repository (time derivative,
  principal components, period estimation, sliding-window video) and
  \<^verbatim>\<open>doRipsFiltrationDM\<close> is the external homology routine; both are parameters. The
  homology routine returns one persistence diagram per degree, a list of (birth, death)
  pairs, or raises. Everything between \<^verbatim>\<open>try\<close> and \<^verbatim>\<open>except Exception\<close> that raises
  leaves \<^verbatim>\<open>Pers\<close> and \<^verbatim>\<open>I\<close> at the values assigned before the \<^verbatim>\<open>try\<close>.
\<close>

definition getPersistencesBlock ::
  "(matrix \<Rightarrow> nat \<Rightarrow> bool \<Rightarrow> int \<Rightarrow> matrix) \<Rightarrow>
   (matrix \<Rightarrow> nat \<Rightarrow> nat \<Rightarrow> error + (real \<times> real) list list) \<Rightarrow>
   matrix \<Rightarrow> nat \<Rightarrow> bool \<Rightarrow> int \<Rightarrow> error + pers_block" where
  "getPersistencesBlock getSlidingWindow doRipsFiltrationDM XP dim' estimateFreq derivWin =
     (let XS = getSlidingWindow XP dim' estimateFreq derivWin
      in case getCSM XS XS of
           Inl e \<Rightarrow> Inl e
         | Inr D \<Rightarrow>
             (case doRipsFiltrationDM D 1 41 of
                Inl e \<Rightarrow> Inr \<lparr>block_D = D, block_P = 0, block_I = [(0, 0)]\<rparr>
              | Inr PDs2 \<Rightarrow>
                  if length PDs2 \<le> 1 then Inr \<lparr>block_D = D, block_P = 0, block_I = [(0, 0)]\<rparr>
                  else (let I = PDs2 ! 1
                        in Inr \<lparr>block_D = D,
                                block_P = (if length I > 0 then Max (set (map (\<lambda>(b, d). d - b) I)) else 0),
                                block_I = I\<rparr>)))"

section \<open>Properties of the run scanner\<close>

lemma record_run_Nil: "record_run c [] = [(c, 1)]"
  by (simp add: record_run_def keys_def lookup_def)

lemma record_run_Cons:
  "record_run c ((k, v) # Rs) = (if k = c then (k, v + 1) # Rs else (k, v) # record_run c Rs)"
  by (auto simp: record_run_def keys_def lookup_def Let_def)

lemma scan_append:
  "scan st c Rs (x @ y) = (case scan st c Rs x of (st', c', Rs') \<Rightarrow> scan st' c' Rs' y)"
  by (induction x arbitrary: st c Rs) (auto split: scan_state.splits)

lemma scan_ones: "scan IN_ONES c Rs (replicate n 1 @ y) = scan IN_ONES (c + n) Rs y"
  by (induction n arbitrary: c) auto

lemma scan_only_ones: "snd (snd (scan st c Rs (replicate n 1))) = Rs"
proof (cases n)
  case 0
  then show ?thesis by simp
next
  case (Suc m)
  have "scan IN_ONES c' Rs (replicate m 1) = (IN_ONES, c' + m, Rs)" for c'
    using scan_ones [of c' Rs m "[]"] by simp
  then show ?thesis using Suc by (cases st) simp_all
qed

lemma takeWhile_ones: "takeWhile (\<lambda>y. y = (1::real)) x = replicate (length (takeWhile (\<lambda>y. y = 1) x)) 1"
  by (induction x) auto

lemma scan_closed_runs:
  "binary_seq x \<Longrightarrow>
   snd (snd (scan IN_ZEROS c Rs x)) = foldl (\<lambda>Runs n. record_run n Runs) Rs (spec_closed_runs x)"
proof (induction x arbitrary: c Rs rule: spec_closed_runs.induct)
  case 1
  then show ?case by simp
next
  case (2 v x)
  let ?ones = "takeWhile (\<lambda>y. y = 1) x" and ?rest = "dropWhile (\<lambda>y. y = 1) x"
  show ?case
  proof (cases "v = 1")
    case False
    with 2 show ?thesis by (simp add: binary_seq_def)
  next
    case True
    have split: "x = replicate (length ?ones) 1 @ ?rest"
      using takeWhile_ones [of x] takeWhile_dropWhile_id [of "\<lambda>y. y = 1" x] by simp
    have step: "scan IN_ZEROS c Rs (v # x) = scan IN_ONES (Suc (length ?ones)) Rs ?rest"
      using True scan_ones [of 1 Rs "length ?ones" ?rest] split by simp
    show ?thesis
    proof (cases "?rest = []")
      case True
      with step \<open>v = 1\<close> show ?thesis by simp
    next
      case False
      then obtain w rest' where rest: "?rest = w # rest'" by (cases ?rest) auto
      have "w \<noteq> 1" using rest hd_dropWhile [of "\<lambda>y. y = 1" x] False by force
      moreover have bin: "binary_seq ?rest"
        using 2(3) set_dropWhileD [of _ "\<lambda>y. y = 1" x] by (auto simp: binary_seq_def list_all_iff)
      ultimately have "w = 0" using rest by (auto simp: binary_seq_def)
      have "snd (snd (scan IN_ZEROS (Suc (length ?ones)) (record_run (Suc (length ?ones)) Rs) ?rest))
            = foldl (\<lambda>Runs n. record_run n Runs) (record_run (Suc (length ?ones)) Rs) (spec_closed_runs ?rest)"
        using 2(1) [OF \<open>v = 1\<close> False bin] .
      then show ?thesis
        using step \<open>v = 1\<close> False rest \<open>w = 0\<close> by simp
    qed
  qed
qed

lemma runs_append_ones: "getContinuousRuns (x @ replicate n 1) = getContinuousRuns x"
proof -
  obtain st c Rs where sc: "scan IN_ZEROS 0 [] x = (st, c, Rs)" by (cases "scan IN_ZEROS 0 [] x") auto
  then show ?thesis
    using scan_only_ones [of st c Rs n] by (simp add: getContinuousRuns_def scan_append)
qed

text \<open>
  C1 (as amended). On the sequence \<open>[0,1,1,0,1,0,0,1,1,1]\<close> the scanner returns
  \<open>{2:1, 1:1}\<close>: the runs of length 2 and 1 are closed by a 0, the last run of length 3
  reaches the end of the sequence and is not recorded. With a terminating 0 appended the
  result is \<open>{2:1, 1:1, 3:1}\<close>.
\<close>

theorem getContinuousRuns_example:
  "getContinuousRuns [0, 1, 1, 0, 1, 0, 0, 1, 1, 1] = [(2, 1), (1, 1)] \<and>
   getContinuousRuns ([0, 1, 1, 0, 1, 0, 0, 1, 1, 1] @ [0]) = [(2, 1), (1, 1), (3, 1)]"
  by (simp add: getContinuousRuns_def record_run_def keys_def lookup_def)

text \<open>
  C1 (as stated) fails: the dictionary returned for \<open>[0,1,1,0,1,0,0,1,1,1]\<close> is not
  \<open>{2:1, 1:1, 3:1}\<close>; it has no entry for the length 3.
\<close>

theorem getContinuousRuns_example_open_run:
  "map_of (getContinuousRuns [0, 1, 1, 0, 1, 0, 0, 1, 1, 1]) \<noteq> map_of [(2, 1), (1, 1), (3, 1)]"
proof
  assume "map_of (getContinuousRuns [0, 1, 1, 0, 1, 0, 0, 1, 1, 1]) = map_of [(2, 1), (1, 1), (3, 1)]"
  then have "map_of (getContinuousRuns [0, 1, 1, 0, 1, 0, 0, 1, 1, 1]) 3
             = map_of [(2, 1), (1, 1), (3, 1::nat)] (3::nat)"
    by simp
  then show False
    by (simp add: getContinuousRuns_def record_run_def keys_def lookup_def)
qed

lemma keys_Cons: "keys ((k, v) # Rs) = k # keys Rs"
  by (simp add: keys_def)

lemma keys_record_run_list:
  "keys (record_run c Rs) = (if c \<in> set (keys Rs) then keys Rs else keys Rs @ [c])"
proof (induction Rs)
  case Nil
  then show ?case by (simp add: record_run_Nil keys_def)
next
  case (Cons p Rs)
  obtain k v where p: "p = (k, v)" by (cases p)
  then show ?case using Cons by (simp add: record_run_Cons keys_Cons)
qed

lemma keys_record_run: "set (keys (record_run c Rs)) = insert c (set (keys Rs))"
  by (auto simp: keys_record_run_list)

lemma count_of_record_run:
  "count_of (record_run n Rs) c = count_of Rs c + (if c = n then 1 else 0)"
proof (induction Rs)
  case Nil
  then show ?case by (simp add: record_run_Nil count_of_def)
next
  case (Cons p Rs)
  obtain k v where p: "p = (k, v)" by (cases p)
  then show ?case using Cons by (auto simp: record_run_Cons count_of_def)
qed

lemma count_of_recorded:
  "count_of (foldl (\<lambda>Runs n. record_run n Runs) Rs ns) c = count_of Rs c + count_list ns c"
  by (induction ns arbitrary: Rs) (auto simp: count_of_record_run)

lemma keys_recorded:
  "set (keys (foldl (\<lambda>Runs n. record_run n Runs) Rs ns)) = set (keys Rs) \<union> set ns"
  by (induction ns arbitrary: Rs) (auto simp: keys_record_run)

text \<open>
  C5. On a binary sequence the returned distribution counts exactly the maximal runs of
  1s that are followed by a 0: under every length \<open>c\<close> it holds the number of such runs
  of length \<open>c\<close>, and its keys are the lengths of such runs. 1s at the end of the
  sequence, which form a run that is still open, change nothing.
\<close>

theorem getContinuousRuns_closed_runs:
  assumes "binary_seq x"
  shows "count_of (getContinuousRuns x) c = count_list (spec_closed_runs x) c \<and>
     set (keys (getContinuousRuns x)) = set (spec_closed_runs x) \<and>
     getContinuousRuns (x @ replicate n 1) = getContinuousRuns x"
proof -
  have "getContinuousRuns x = foldl (\<lambda>Runs n. record_run n Runs) [] (spec_closed_runs x)"
    using scan_closed_runs [OF assms, of 0 "[]"] by (simp add: getContinuousRuns_def)
  then show ?thesis
    using count_of_recorded [of "[]" "spec_closed_runs x" c]
      keys_recorded [of "[]" "spec_closed_runs x"] runs_append_ones [of x n]
    by (simp add: count_of_def keys_def)
qed

theorem getContinuousRuns_closed_runs_witness:
  "binary_seq [1, 1, 0, 0, 1, 0, 1] \<and>
   count_of (getContinuousRuns [1, 1, 0, 0, 1, 0, 1]) 2
     = count_list (spec_closed_runs [1, 1, 0, 0, 1, 0, 1]) 2 \<and>
   count_list (spec_closed_runs [1, 1, 0, 0, 1, 0, 1]) 2 = 1 \<and>
   set (keys (getContinuousRuns [1, 1, 0, 0, 1, 0, 1])) = set (spec_closed_runs [1, 1, 0, 0, 1, 0, 1]) \<and>
   getContinuousRuns ([1, 1, 0, 0, 1, 0, 1] @ replicate 2 1) = getContinuousRuns [1, 1, 0, 0, 1, 0, 1]"
proof -
  have h: "binary_seq [1, 1, 0, 0, 1, 0, 1]" by (simp add: binary_seq_def)
  have "count_list (spec_closed_runs [1, 1, 0, 0, 1, 0, 1]) 2 = 1" by simp
  then show ?thesis using h getContinuousRuns_closed_runs [OF h, of 2 2] by simp
qed

section \<open>Properties of the run extraction and of the statistics\<close>

lemma ent_mk_matrix: "i < n \<Longrightarrow> j < m \<Longrightarrow> ent (mk_matrix n m f) i j = f i j"
  by (simp add: ent_def mk_matrix_def)

lemma shape_mk_matrix: "nrows (mk_matrix n m f) = n" "ncols (mk_matrix n m f) = m"
  by (simp_all add: mk_matrix_def)

lemma shape_np_zeros: "nrows (np_zeros n m) = n" "ncols (np_zeros n m) = m"
  by (simp_all add: np_zeros_def mk_matrix_def)

lemma scan_zeros: "list_all (\<lambda>v. v = 0) x \<Longrightarrow> scan IN_ZEROS c Rs x = (IN_ZEROS, c, Rs)"
  by (induction x) auto

lemma runs_zeros: "list_all (\<lambda>v. v = 0) x \<Longrightarrow> getContinuousRuns x = []"
  by (simp add: getContinuousRuns_def scan_zeros)

lemma flatten_pad_zeros: "list_all (\<lambda>v. v = 0) (flatten (pad_zero (np_zeros N N)))"
  by (auto simp: flatten_def pad_zero_def np_zeros_def mk_matrix_def list_all_iff Let_def ent_def)

lemma flatten_zeros: "list_all (\<lambda>v. v = 0) (flatten (np_zeros N M))"
  by (auto simp: flatten_def np_zeros_def mk_matrix_def list_all_iff)

lemma diags_zeros:
  "list_all (\<lambda>v. v = 0) (concat (map (\<lambda>i. diagonal (np_zeros N N) i @ [0]) [1..<N]))"
  by (auto simp: diagonal_def np_zeros_def list_all_iff ent_mk_matrix shape_mk_matrix)

lemma getRQAVerts_zeros: "getRQAVerts (np_zeros N N) = Inr []"
  using flatten_pad_zeros [of N] by (simp add: getRQAVerts_def runs_zeros np_zeros_def mk_matrix_def)

lemma getRQADiags_zeros: "getRQADiags (np_zeros N N) = []"
  using diags_zeros [of N] by (simp add: getRQADiags_def runs_zeros np_zeros_def shape_mk_matrix)

lemma filter_ones_zeros: "list_all (\<lambda>v. v = (0::real)) x \<Longrightarrow> filter (\<lambda>v. v = 1) x = []"
  by (induction x) auto

text \<open>
  C2. The claim reads the vertical extraction column by column. On the matrix with rows
  \<open>[1, 1]\<close> and \<open>[0, 0]\<close> the two columns of the padded matrix hold one run of length 1
  each, so the merged column distribution is \<open>{1:2}\<close>; \<^verbatim>\<open>getRQAVerts\<close> flattens the
  padded matrix row by row and returns \<open>{2:1}\<close>, the run along the first row.
\<close>

theorem getRQAVerts_scans_rows:
  "getRQAVerts \<lparr>nrows = 2, ncols = 2, rows = [[1, 1], [0, 0]]\<rparr> = Inr [(2, 1)] \<and>
   spec_column_runs \<lparr>nrows = 2, ncols = 2, rows = [[1, 1], [0, 0]]\<rparr> = [(1, 2)]"
  by code_simp

text \<open>
  C3 (as amended). For the all-zero \<open>N \<times> N\<close> matrix with \<open>N \<ge> 1\<close> and any minimum
  lengths, \<^verbatim>\<open>getRQAStats\<close> returns RR = 0, DET = 0, LAM = 0, Lmax = 0, Vmax = 0 and
  ENTR = 0: the guard replaces the zero denominators of DET and LAM by 1, and their
  numerators are 0.
\<close>

theorem getRQAStats_zero_matrix:
  "0 < N \<Longrightarrow>
   \<exists>s. getRQAStats (np_zeros N N) dmin vmin = Inr s \<and>
       RR s = Some 0 \<and> DET s = 0 \<and> LAM s = 0 \<and> Lmax s = 0 \<and> Vmax s = 0 \<and> ENTR s = 0"
  using filter_ones_zeros [OF flatten_zeros, of N N]
  by (simp add: getRQAStats_def getRQAVerts_zeros getRQADiags_zeros sum_lengths_from_def
      sum_lengths_def num_runs_from_def keys_def max_length_def entropy_def recurrence_rate_def
      shape_np_zeros Let_def)

theorem getRQAStats_zero_matrix_witness:
  "(0::nat) < 3 \<and>
   (\<exists>s. getRQAStats (np_zeros 3 3) 2 2 = Inr s \<and>
       RR s = Some 0 \<and> DET s = 0 \<and> LAM s = 0 \<and> Lmax s = 0 \<and> Vmax s = 0 \<and> ENTR s = 0)"
  using getRQAStats_zero_matrix [of 3 2 2] by simp

text \<open>
  C3 (as stated) fails: for the all-zero \<open>2 \<times> 2\<close> matrix DET and LAM are 0, not 1.
\<close>

theorem getRQAStats_zero_matrix_DET_LAM:
  "map_sum id DET (getRQAStats (np_zeros 2 2) 2 2) = Inr 0 \<and>
   map_sum id DET (getRQAStats (np_zeros 2 2) 2 2) \<noteq> Inr 1 \<and>
   map_sum id LAM (getRQAStats (np_zeros 2 2) 2 2) = Inr 0 \<and>
   map_sum id LAM (getRQAStats (np_zeros 2 2) 2 2) \<noteq> Inr 1"
  by (simp add: getRQAStats_def getRQAVerts_zeros getRQADiags_zeros sum_lengths_from_def
      sum_lengths_def num_runs_from_def keys_def max_length_def entropy_def recurrence_rate_def
      shape_np_zeros Let_def)

subsection \<open>The sums behind DET and LAM\<close>

lemma lookup_Cons_other: "c \<noteq> k \<Longrightarrow> lookup ((k, v) # Rs) c = lookup Rs c"
  by (simp add: lookup_def)

lemma lookup_Cons_same: "lookup ((k, v) # Rs) k = v"
  by (simp add: lookup_def)

lemma sum_lengths_Cons:
  assumes "k \<notin> set (keys Rs)"
  shows "sum_lengths ((k, v) # Rs) = k * v + sum_lengths Rs"
proof -
  have "c \<noteq> k" if "c \<in> set (keys Rs)" for c
    using that assms by auto
  then have "map (\<lambda>c. c * lookup ((k, v) # Rs) c) (keys Rs) = map (\<lambda>c. c * lookup Rs c) (keys Rs)"
    by (intro map_cong refl) (simp add: lookup_Cons_other)
  then have "sum_list (map (\<lambda>c. c * lookup ((k, v) # Rs) c) (keys Rs)) = sum_lengths Rs"
    unfolding sum_lengths_def by (rule arg_cong)
  moreover have "sum_lengths ((k, v) # Rs)
      = k * v + sum_list (map (\<lambda>c. c * lookup ((k, v) # Rs) c) (keys Rs))"
    unfolding sum_lengths_def keys_Cons by (simp add: lookup_Cons_same)
  ultimately show ?thesis by (simp only:)
qed

lemma sum_lengths_pairs:
  "distinct (keys Rs) \<Longrightarrow> sum_lengths Rs = sum_list (map (\<lambda>(c, n). c * n) Rs)"
proof (induction Rs)
  case Nil
  then show ?case by (simp add: sum_lengths_def keys_def)
next
  case (Cons p Rs)
  obtain k v where p: "p = (k, v)" by (cases p)
  with Cons.prems have "k \<notin> set (keys Rs)" and "distinct (keys Rs)"
    by (simp_all add: keys_Cons)
  then show ?case
    using Cons.IH p by (simp add: sum_lengths_Cons)
qed

lemma distinct_record_run: "distinct (keys Rs) \<Longrightarrow> distinct (keys (record_run c Rs))"
proof (induction Rs)
  case Nil
  then show ?case by (simp add: record_run_Nil keys_def)
next
  case (Cons p Rs)
  obtain k v where p: "p = (k, v)" by (cases p)
  show ?case
  proof (cases "k = c")
    case True
    with Cons.prems p show ?thesis by (simp add: record_run_Cons keys_def)
  next
    case False
    have "k \<notin> set (keys (record_run c Rs))"
      using Cons.prems p False by (simp add: keys_record_run) (simp add: keys_def)
    moreover have "distinct (keys (record_run c Rs))"
      using Cons p by (simp add: keys_def)
    ultimately show ?thesis using False p by (simp add: record_run_Cons keys_def)
  qed
qed

lemma pairs_record_run:
  "sum_list (map (\<lambda>(k, n). k * n) (record_run c Rs)) = sum_list (map (\<lambda>(k, n). k * n) Rs) + c"
  by (induction Rs) (auto simp: record_run_Nil record_run_Cons)

lemma sum_lengths_record_run:
  "distinct (keys Rs) \<Longrightarrow> sum_lengths (record_run c Rs) = sum_lengths Rs + c"
  by (simp add: sum_lengths_pairs distinct_record_run pairs_record_run)

lemma scan_total:
  "binary_seq x \<Longrightarrow> distinct (keys Rs) \<Longrightarrow> scan st c Rs x = (st', c', Rs') \<Longrightarrow>
   distinct (keys Rs') \<and>
   real (sum_lengths Rs') + (if st' = IN_ONES then real c' else 0)
     = real (sum_lengths Rs) + (if st = IN_ONES then real c else 0) + sum_list x"
proof (induction x arbitrary: st c Rs)
  case Nil
  then show ?case by auto
next
  case (Cons v x)
  have bin: "binary_seq x" and v: "v = 0 \<or> v = 1"
    using Cons.prems(1) by (simp_all add: binary_seq_def)
  show ?case
  proof (cases st)
    case IN_ZEROS
    show ?thesis
    proof (cases "v = 1")
      case True
      with IN_ZEROS Cons.prems have "scan IN_ONES 1 Rs x = (st', c', Rs')" by simp
      from Cons.IH [OF bin Cons.prems(2) this] show ?thesis using IN_ZEROS True by simp
    next
      case False
      with IN_ZEROS Cons.prems have "scan IN_ZEROS c Rs x = (st', c', Rs')" by simp
      from Cons.IH [OF bin Cons.prems(2) this] show ?thesis using IN_ZEROS False v by simp
    qed
  next
    case IN_ONES
    show ?thesis
    proof (cases "v = 1")
      case True
      with IN_ONES Cons.prems have "scan IN_ONES (c + 1) Rs x = (st', c', Rs')" by simp
      from Cons.IH [OF bin Cons.prems(2) this] show ?thesis using IN_ONES True by simp
    next
      case False
      then have "v = 0" using v by simp
      with IN_ONES Cons.prems have "scan IN_ZEROS c (record_run c Rs) x = (st', c', Rs')" by simp
      from Cons.IH [OF bin distinct_record_run [OF Cons.prems(2)] this]
      show ?thesis using IN_ONES \<open>v = 0\<close> Cons.prems(2) by (simp add: sum_lengths_record_run)
    qed
  qed
qed

lemma scan_snoc_zero: "fst (scan st c Rs (x @ [0])) = IN_ZEROS"
  by (cases "scan st c Rs x") (auto simp: scan_append split: scan_state.splits)

lemma runs_total:
  assumes "binary_seq x" and "x = [] \<or> (\<exists>y. x = y @ [0])"
  shows "real (sum_lengths (getContinuousRuns x)) = sum_list x"
proof -
  obtain st' c' Rs' where sc: "scan IN_ZEROS 0 [] x = (st', c', Rs')"
    by (cases "scan IN_ZEROS 0 [] x") auto
  have "st' = IN_ZEROS"
  proof (cases "x = []")
    case True
    with sc show ?thesis by simp
  next
    case False
    then obtain y where "x = y @ [0]" using assms(2) by auto
    then show ?thesis using sc scan_snoc_zero [of IN_ZEROS 0 "[]" y] by simp
  qed
  moreover have "real (sum_lengths Rs') + (if st' = IN_ONES then real c' else 0)
     = real (sum_lengths []) + 0 + sum_list x"
    using scan_total [OF assms(1) _ sc] by (simp add: keys_def)
  ultimately show ?thesis using sc by (simp add: getContinuousRuns_def sum_lengths_def keys_def)
qed

lemma sum_list_concat: "sum_list (concat xss) = sum_list (map sum_list xss)"
  for xss :: "real list list"
  by (induction xss) auto

lemma inner_filter:
  fixes g :: "nat \<Rightarrow> real"
  shows "sum_list (map g (filter (\<lambda>b. a < b) [0..<N])) = sum g {Suc a..<N}"
proof -
  have "sum_list (map g (filter (\<lambda>b. a < b) [0..<N])) = sum g (set (filter (\<lambda>b. a < b) [0..<N]))"
    by (rule sum_list_distinct_conv_sum_set) simp
  moreover have "set (filter (\<lambda>b. a < b) [0..<N]) = {Suc a..<N}" by auto
  ultimately show ?thesis by simp
qed

lemma triangle_reindex:
  fixes f :: "nat \<Rightarrow> nat \<Rightarrow> real"
  shows "(\<Sum>k = 1..<N. \<Sum>r = 0..<N - k. f r (r + k)) = (\<Sum>a = 0..<N. \<Sum>b = Suc a..<N. f a b)"
proof -
  have "(\<Sum>k = 1..<N. \<Sum>r = 0..<N - k. f r (r + k))
        = (\<Sum>(k, r) \<in> (SIGMA k:{1..<N}. {0..<N - k}). f r (r + k))"
    by (simp add: sum.Sigma)
  also have "\<dots> = (\<Sum>(a, b) \<in> (SIGMA a:{0..<N}. {Suc a..<N}). f a b)"
    by (rule sum.reindex_bij_witness [where i = "\<lambda>(a, b). (b - a, a)" and j = "\<lambda>(k, r). (r, r + k)"]) auto
  also have "\<dots> = (\<Sum>a = 0..<N. \<Sum>b = Suc a..<N. f a b)"
    by (simp add: sum.Sigma)
  finally show ?thesis .
qed

lemma triangle_lists:
  fixes f :: "nat \<Rightarrow> nat \<Rightarrow> real"
  shows "sum_list (concat (map (\<lambda>k. map (\<lambda>r. f r (r + k)) [0..<N - k] @ [0]) [1..<N]))
       = sum_list (concat (map (\<lambda>a. map (\<lambda>b. f a b) (filter (\<lambda>b. b > a) [0..<N])) [0..<N]))"
proof -
  have "sum_list (concat (map (\<lambda>k. map (\<lambda>r. f r (r + k)) [0..<N - k] @ [0]) [1..<N]))
        = (\<Sum>k = 1..<N. \<Sum>r = 0..<N - k. f r (r + k))"
    by (simp add: sum_list_concat comp_def interv_sum_list_conv_sum_set_nat)
  moreover have "sum_list (concat (map (\<lambda>a. map (\<lambda>b. f a b) (filter (\<lambda>b. b > a) [0..<N])) [0..<N]))
        = (\<Sum>a = 0..<N. \<Sum>b = Suc a..<N. f a b)"
    by (simp add: sum_list_concat comp_def interv_sum_list_conv_sum_set_nat inner_filter)
  ultimately show ?thesis using triangle_reindex [of f N] by simp
qed


lemma ent_binary:
  assumes "wf_matrix R" "binary_matrix R" "i < nrows R" "j < ncols R"
  shows "ent R i j = 0 \<or> ent R i j = 1"
proof -
  have row: "rows R ! i \<in> set (rows R)" using assms(1,3) by (simp add: wf_matrix_def)
  then have "length (rows R ! i) = ncols R" and "binary_seq (rows R ! i)"
    using assms(1,2) by (simp_all add: wf_matrix_def binary_matrix_def list_all_iff)
  then have "rows R ! i ! j \<in> set (rows R ! i)" and "\<forall>v\<in>set (rows R ! i). v = 0 \<or> v = 1"
    using assms(4) by (simp_all add: binary_seq_def list_all_iff)
  then show ?thesis by (simp add: ent_def)
qed

lemma diagonals_binary:
  assumes "wf_matrix R" "binary_matrix R" "ncols R = nrows R"
  shows "binary_seq (concat (map (\<lambda>i. diagonal R i @ [0]) [1..<ncols R]))"
  using assms ent_binary [OF assms(1,2)]
  by (auto simp: binary_seq_def list_all_iff diagonal_def)

lemma diagonals_closed:
  "concat (map (\<lambda>i. f i @ [0::real]) ks) = [] \<or> (\<exists>y. concat (map (\<lambda>i. f i @ [0]) ks) = y @ [0])"
  by (cases ks rule: rev_cases) auto

lemma diagonals_sum:
  assumes "ncols R = nrows R"
  shows "sum_list (concat (map (\<lambda>i. diagonal R i @ [0]) [1..<ncols R])) = sum_list (above_diagonal R)"
  using triangle_lists [of "ent R" "nrows R"] assms
  by (simp add: diagonal_def above_diagonal_def)

lemma sum_lengths_diags:
  assumes "wf_matrix R" "binary_matrix R" "ncols R = nrows R"
  shows "real (sum_lengths (getRQADiags R)) = sum_list (above_diagonal R)"
  unfolding getRQADiags_def
  using runs_total [OF diagonals_binary [OF assms] diagonals_closed] diagonals_sum [OF assms(3)]
  by simp

lemma sum_lengths_from_le: "sum_lengths_from Rs m \<le> sum_lengths Rs"
proof -
  have "sum_list (map f (filter P ks)) \<le> sum_list (map f ks)" for f :: "nat \<Rightarrow> nat" and P ks
    by (induction ks) auto
  then show ?thesis by (simp add: sum_lengths_from_def sum_lengths_def)
qed

lemma guarded_ratio:
  assumes "0 \<le> a" "a \<le> b"
  shows "0 \<le> a / zeroDenom b \<and> a / zeroDenom b \<le> 1 \<and> (b = 0 \<longrightarrow> a / zeroDenom b = 0)"
  using assms by (auto simp: zeroDenom_def)

text \<open>
  C9. For a square binary matrix and any minimum lengths, \<^verbatim>\<open>getRQAStats\<close> returns
  normally and DET and LAM lie in \<open>[0, 1]\<close>: the sum of length times count over the
  diagonal runs of length at least \<open>dmin\<close> is at most the sum of the entries strictly
  above the main diagonal, the sum over the vertical runs of length at least \<open>vmin\<close> is
  at most the sum over all vertical runs, and where such a denominator is 0 the guarded
  ratio is 0.
\<close>

theorem getRQAStats_DET_LAM_bounds:
  assumes "wf_matrix R" "binary_matrix R" "ncols R = nrows R"
  shows "\<exists>s Verts. getRQAStats R dmin vmin = Inr s \<and> getRQAVerts R = Inr Verts \<and>
     real (sum_lengths_from (getRQADiags R) dmin) \<le> sum_list (above_diagonal R) \<and>
     sum_lengths_from Verts vmin \<le> sum_lengths Verts \<and>
     (sum_list (above_diagonal R) = 0 \<longrightarrow> DET s = 0) \<and>
     (sum_lengths Verts = 0 \<longrightarrow> LAM s = 0) \<and>
     0 \<le> DET s \<and> DET s \<le> 1 \<and> 0 \<le> LAM s \<and> LAM s \<le> 1"
proof -
  obtain Verts where verts: "getRQAVerts R = Inr Verts"
    using assms(3) by (simp add: getRQAVerts_def)
  obtain s where s: "getRQAStats R dmin vmin = Inr s"
    using assms(3) verts by (simp add: getRQAStats_def Let_def)
  have det: "DET s = real (sum_lengths_from (getRQADiags R) dmin) / zeroDenom (sum_list (above_diagonal R))"
    and lam: "LAM s = real (sum_lengths_from Verts vmin) / zeroDenom (real (sum_lengths Verts))"
    using s verts assms(3) by (auto simp: getRQAStats_def Let_def)
  have d: "real (sum_lengths_from (getRQADiags R) dmin) \<le> sum_list (above_diagonal R)"
    using sum_lengths_from_le [of "getRQADiags R" dmin] sum_lengths_diags [OF assms]
    by linarith
  have v: "real (sum_lengths_from Verts vmin) \<le> real (sum_lengths Verts)"
    using sum_lengths_from_le [of Verts vmin] by simp
  show ?thesis
    using s verts d v det lam
      guarded_ratio [OF _ d] guarded_ratio [OF _ v] by simp
qed

theorem getRQAStats_DET_LAM_bounds_witness:
  "wf_matrix \<lparr>nrows = 3, ncols = 3, rows = [[0, 1, 1], [1, 0, 1], [0, 1, 0]]\<rparr> \<and> binary_matrix \<lparr>nrows = 3, ncols = 3, rows = [[0, 1, 1], [1, 0, 1], [0, 1, 0]]\<rparr> \<and> ncols \<lparr>nrows = 3, ncols = 3, rows = [[0, 1, 1], [1, 0, 1], [0, 1, 0]]\<rparr> = nrows \<lparr>nrows = 3, ncols = 3, rows = [[0, 1, 1], [1, 0, 1], [0, 1, 0]]\<rparr> \<and>
   (\<exists>s Verts. getRQAStats \<lparr>nrows = 3, ncols = 3, rows = [[0, 1, 1], [1, 0, 1], [0, 1, 0]]\<rparr> 2 2 = Inr s \<and> getRQAVerts \<lparr>nrows = 3, ncols = 3, rows = [[0, 1, 1], [1, 0, 1], [0, 1, 0]]\<rparr> = Inr Verts \<and>
     real (sum_lengths_from (getRQADiags \<lparr>nrows = 3, ncols = 3, rows = [[0, 1, 1], [1, 0, 1], [0, 1, 0]]\<rparr>) 2) \<le> sum_list (above_diagonal \<lparr>nrows = 3, ncols = 3, rows = [[0, 1, 1], [1, 0, 1], [0, 1, 0]]\<rparr>) \<and>
     sum_lengths_from Verts 2 \<le> sum_lengths Verts \<and>
     (sum_list (above_diagonal \<lparr>nrows = 3, ncols = 3, rows = [[0, 1, 1], [1, 0, 1], [0, 1, 0]]\<rparr>) = 0 \<longrightarrow> DET s = 0) \<and>
     (sum_lengths Verts = 0 \<longrightarrow> LAM s = 0) \<and>
     0 \<le> DET s \<and> DET s \<le> 1 \<and> 0 \<le> LAM s \<and> LAM s \<le> 1)"
proof -
  have h1: "wf_matrix \<lparr>nrows = 3, ncols = 3, rows = [[0, 1, 1], [1, 0, 1], [0, 1, 0]]\<rparr>"
    by (simp add: wf_matrix_def)
  have h2: "binary_matrix \<lparr>nrows = 3, ncols = 3, rows = [[0, 1, 1], [1, 0, 1], [0, 1, 0]]\<rparr>"
    by (simp add: binary_matrix_def binary_seq_def)
  have h3: "ncols \<lparr>nrows = 3, ncols = 3, rows = [[0, 1, 1], [1, 0, 1], [0, 1, 0]]\<rparr> = nrows \<lparr>nrows = 3, ncols = 3, rows = [[0, 1, 1], [1, 0, 1], [0, 1, 0]]\<rparr>"
    by simp
  show ?thesis
    using h1 h2 h3 getRQAStats_DET_LAM_bounds [OF h1 h2 h3, of 2 2] by blast
qed

section \<open>Properties of the binarisation\<close>

text \<open>
  C7. For \<open>Kappa = 0\<close>, as an \<^verbatim>\<open>int\<close> or as a \<^verbatim>\<open>float\<close>, \<^verbatim>\<open>CSMToBinary\<close> returns the
  matrix of the shape of \<open>D\<close> whose entries are all 1.
\<close>

theorem CSMToBinary_Kappa_zero:
  "CSMToBinary float_mul argpartition D (PyInt 0)
     = Inr \<lparr>nrows = nrows D, ncols = ncols D, rows = replicate (nrows D) (replicate (ncols D) 1)\<rparr> \<and>
   CSMToBinary float_mul argpartition D (PyFloat 0)
     = Inr \<lparr>nrows = nrows D, ncols = ncols D, rows = replicate (nrows D) (replicate (ncols D) 1)\<rparr>"
  by (simp add: CSMToBinary_def np_ones_def mk_matrix_def map_replicate_const Let_def)

lemma concat_map_Nil: "concat (map (\<lambda>r. []) rs) = []"
  by (induction rs) auto

text \<open>
  C10. For \<open>0 < Kappa < 1\<close> with \<open>round(Kappa \<cdot> M) = 0\<close>, whatever the product is,
  \<^verbatim>\<open>CSMToBinary\<close> returns the all-zero matrix of the shape of \<open>D\<close>, whereas \<open>Kappa = 0\<close>
  gives the all-ones matrix.
\<close>

theorem CSMToBinary_no_neighbours:
  "0 < num_val Kappa \<Longrightarrow> num_val Kappa < 1 \<Longrightarrow>
   np_round (float_mul (num_val Kappa) (real (ncols D))) = 0 \<Longrightarrow>
   CSMToBinary float_mul argpartition D Kappa
     = Inr \<lparr>nrows = nrows D, ncols = ncols D, rows = replicate (nrows D) (replicate (ncols D) 0)\<rparr> \<and>
   CSMToBinary float_mul argpartition D (PyFloat 0)
     = Inr \<lparr>nrows = nrows D, ncols = ncols D, rows = replicate (nrows D) (replicate (ncols D) 1)\<rparr>"
  by (cases Kappa)
     (auto simp: CSMToBinary_def neighbour_count_def coo_toarray_def np_ones_def mk_matrix_def
       map_replicate_const concat_map_Nil Let_def)

text \<open>
  The witness takes \<open>Kappa = 0.125\<close> and \<open>M = 3\<close>, where the product of the doubles,
  0.375, is exact.
\<close>

theorem CSMToBinary_no_neighbours_witness:
  "0 < num_val (PyFloat 0.125) \<and> num_val (PyFloat 0.125) < 1 \<and>
   np_round ((\<lambda>a b. a * b) (num_val (PyFloat 0.125))
      (real (ncols \<lparr>nrows = 2, ncols = 3, rows = [[5, 3, 7], [2, 1, 3]]\<rparr>))) = 0 \<and>
   CSMToBinary (\<lambda>a b. a * b) (\<lambda>r k. [1, 0, 2])
       \<lparr>nrows = 2, ncols = 3, rows = [[5, 3, 7], [2, 1, 3]]\<rparr> (PyFloat 0.125)
     = Inr \<lparr>nrows = 2, ncols = 3, rows = [[0, 0, 0], [0, 0, 0]]\<rparr>"
  using CSMToBinary_no_neighbours
    [of "PyFloat 0.125" "\<lambda>a b. a * b" "\<lparr>nrows = 2, ncols = 3, rows = [[5, 3, 7], [2, 1, 3]]\<rparr>"
        "\<lambda>r k. [1, 0, 2]"]
  by (simp add: np_round_def numeral_3_eq_3 numeral_2_eq_2)

subsection \<open>The nearest neighbours of a row\<close>

lemma length_concat_const:
  "\<forall>x\<in>set xs. length (h x) = k \<Longrightarrow> length (concat (map h xs)) = length xs * k"
  by (induction xs) auto

lemma zip_blocks:
  "\<forall>r\<in>set rs. length (g r) = k \<Longrightarrow>
   zip (concat (map (\<lambda>i. replicate k i) [n..<n + length rs])) (concat (map g rs))
     = concat (map (\<lambda>(i, r). map (Pair i) (g r)) (zip [n..<n + length rs] rs))"
proof (induction rs arbitrary: n)
  case Nil
  then show ?case by simp
next
  case (Cons r rs)
  have upt: "[n..<n + length (r # rs)] = n # [Suc n..<Suc n + length rs]"
    using upt_conv_Cons [of n "n + length (r # rs)"] by simp
  have "zip (replicate k n) (g r) = map (Pair n) (g r)"
    using Cons.prems by (simp add: zip_replicate1)
  moreover have "zip (concat (map (\<lambda>i. replicate k i) [Suc n..<Suc n + length rs])) (concat (map g rs))
     = concat (map (\<lambda>(i, r). map (Pair i) (g r)) (zip [Suc n..<Suc n + length rs] rs))"
    using Cons.IH [of "Suc n"] Cons.prems by simp
  ultimately show ?case
    unfolding upt using Cons.prems by simp
qed

lemma count_entries:
  "sum_list (map fst (filter (\<lambda>(v, i', j'). i' = i \<and> j' = j) (map (Pair (1::real)) ps)))
     = real (count_list ps (i, j))"
  by (induction ps) auto

lemma count_list_Pair: "count_list (map (Pair i') xs) (i, j) = (if i' = i then count_list xs j else 0)"
  by (induction xs) auto

lemma count_blocks:
  "sum_list (map (\<lambda>(i', r). if i' = i then c r else (0::nat)) (zip [n..<n + length rs] rs))
     = (if n \<le> i \<and> i < n + length rs then c (rs ! (i - n)) else 0)"
proof (induction rs arbitrary: n)
  case Nil
  then show ?case by simp
next
  case (Cons r rs)
  have upt: "[n..<n + length (r # rs)] = n # [Suc n..<Suc n + length rs]"
    using upt_conv_Cons [of n "n + length (r # rs)"] by simp
  show ?case
    unfolding upt using Cons.IH [of "Suc n"] by (auto simp: Suc_diff_le nth_Cons')
qed

lemma count_list_distinct: "distinct xs \<Longrightarrow> count_list xs x = (if x \<in> set xs then 1 else 0)"
  by (induction xs) auto

lemma count_pairs:
  assumes "\<forall>r\<in>set rs. length (g r) = k" "i < length rs"
  shows "count_list (zip (concat (map (\<lambda>i. replicate k i) [0..<length rs])) (concat (map g rs))) (i, j)
         = count_list (g (rs ! i)) j"
proof -
  have "count_list (concat (map (\<lambda>(i, r). map (Pair i) (g r)) (zip [0..<0 + length rs] rs))) (i, j)
        = sum_list (map (\<lambda>(i', r). if i' = i then count_list (g r) j else 0) (zip [0..<0 + length rs] rs))"
    by (simp add: count_list_concat comp_def case_prod_unfold count_list_Pair)
  then show ?thesis
    using zip_blocks [OF assms(1), of 0] count_blocks [of i "\<lambda>r. count_list (g r) j" 0 rs] assms(2)
    by simp
qed


lemma argpartition_take:
  assumes "argpartition_ok ap r k" "k < length r"
  shows "length (take k (ap r k)) = k" "distinct (take k (ap r k))"
    "set (take k (ap r k)) \<subseteq> {0..<length r}"
  using assms by (auto simp: argpartition_ok_def Let_def list_all_iff dest: in_set_takeD)

lemma argpartition_smallest:
  assumes ok: "argpartition_ok ap r k" and k: "k < length r"
    and j: "j \<in> set (take k (ap r k))" and j': "j' < length r" "j' \<notin> set (take k (ap r k))"
  shows "r ! j \<le> r ! j'"
proof -
  let ?p = "ap r k"
  have len: "length ?p = length r" and dist: "distinct ?p" and sub: "set ?p \<subseteq> {0..<length r}"
    and low: "\<forall>a<k. r ! (?p ! a) \<le> r ! (?p ! k)"
    and high: "\<forall>b. k < b \<and> b < length r \<longrightarrow> r ! (?p ! k) \<le> r ! (?p ! b)"
    using ok by (auto simp: argpartition_ok_def Let_def list_all_iff)
  obtain a where a: "a < k" "?p ! a = j"
    using j k len by (auto simp: in_set_conv_nth)
  have "card (set ?p) = card {0..<length r}" using dist len by (simp add: distinct_card)
  then have "set ?p = {0..<length r}" using sub by (simp add: card_subset_eq)
  then have "j' \<in> set ?p" using j'(1) by simp
  then obtain b where b: "b < length r" "?p ! b = j'"
    using len by (auto simp: in_set_conv_nth)
  have "\<not> b < k"
  proof
    assume "b < k"
    then have "take k ?p ! b = j'" using b by simp
    moreover have "b < length (take k ?p)" using \<open>b < k\<close> k len by simp
    ultimately have "j' \<in> set (take k ?p)" using nth_mem by metis
    then show False using j'(2) by simp
  qed
  then have "r ! (?p ! k) \<le> r ! (?p ! b)"
    using high b(1) by (cases "b = k") auto
  then show ?thesis using low a b by force
qed

lemma count_ones_indicator:
  assumes "S \<subseteq> {0..<M}"
  shows "length (filter (\<lambda>v. v = 1) (map (\<lambda>j. if j \<in> S then 1 else (0::real)) [0..<M])) = card S"
proof -
  have "length (filter (\<lambda>v. v = 1) (map (\<lambda>j. if j \<in> S then 1 else (0::real)) [0..<M]))
        = length (filter (\<lambda>j. j \<in> S) [0..<M])"
    by (simp add: filter_map comp_def)
  also have "\<dots> = card ({j. j \<in> S} \<inter> set [0..<M])"
    by (rule distinct_length_filter) simp
  also have "{j. j \<in> S} \<inter> set [0..<M] = S" using assms by auto
  finally show ?thesis .
qed

lemma CSMToBinary_entries:
  assumes wf: "wf_matrix D" and k: "k < ncols D"
    and ok: "\<forall>r\<in>set (rows D). argpartition_ok ap r k"
    and ij: "i < nrows D" "j < ncols D"
  shows "ent (coo_toarray (zip (replicate (nrows D * k) 1)
            (zip (concat (map (\<lambda>i. replicate k i) [0..<nrows D]))
                 (concat (map (\<lambda>r. take k (ap r k)) (rows D))))) (nrows D) (ncols D)) i j
         = (if j \<in> set (take k (ap (rows D ! i) k)) then 1 else 0)"
proof -
  let ?g = "\<lambda>r. take k (ap r k)"
  let ?pairs = "zip (concat (map (\<lambda>i. replicate k i) [0..<length (rows D)])) (concat (map ?g (rows D)))"
  have len: "length (rows D) = nrows D" and rlen: "\<forall>r\<in>set (rows D). length r = ncols D"
    using wf by (simp_all add: wf_matrix_def list_all_iff)
  have glen: "\<forall>r\<in>set (rows D). length (?g r) = k"
    using ok rlen k argpartition_take(1) by metis
  have row: "rows D ! i \<in> set (rows D)" using ij(1) len by simp
  have dist: "distinct (?g (rows D ! i))"
    using argpartition_take(2) ok row rlen k by metis
  have "length (concat (map (\<lambda>i. replicate k i) [0..<length (rows D)])) = nrows D * k"
    using length_concat_const [of "[0..<length (rows D)]" "replicate k" k] len by simp
  then have "length ?pairs = nrows D * k"
    using length_concat_const [OF glen] len by simp
  then have "zip (replicate (nrows D * k) 1) ?pairs = map (Pair (1::real)) ?pairs"
    by (simp add: zip_replicate1)
  then have "ent (coo_toarray (zip (replicate (nrows D * k) 1) ?pairs) (nrows D) (ncols D)) i j
        = real (count_list ?pairs (i, j))"
    using ij by (simp add: coo_toarray_def ent_mk_matrix count_entries)
  also have "\<dots> = real (count_list (?g (rows D ! i)) j)"
    using count_pairs [OF glen, of i j] ij(1) len by simp
  also have "\<dots> = (if j \<in> set (?g (rows D ! i)) then 1 else 0)"
    using dist by (simp add: count_list_distinct)
  finally show ?thesis using len by simp
qed


text \<open>
  C6. Let \<open>D\<close> be an \<open>N \<times> M\<close> matrix and let \<open>Kappa\<close> give the neighbour count
  \<open>k\<close> with \<open>0 < k < M\<close>, as \<open>round(Kappa * M)\<close> of the double product for a float
  \<open>0 < Kappa < 1\<close> or as the integer \<open>Kappa\<close> itself. With an \<^verbatim>\<open>argpartition\<close> that
  meets its contract on the rows of \<open>D\<close>, \<^verbatim>\<open>CSMToBinary\<close> returns an \<open>N \<times> M\<close> matrix of
  0s and 1s in which every row has exactly \<open>k\<close> entries equal to 1, and in every row each
  column holding a 1 has a value of \<open>D\<close> no larger than each column holding a 0.
\<close>

theorem CSMToBinary_nearest_neighbours:
  assumes wf: "wf_matrix D"
    and kappa: "(Kappa = PyFloat f \<and> 0 < f \<and> f < 1 \<and>
                 np_round (float_mul f (real (ncols D))) = int k) \<or> Kappa = PyInt (int k)"
    and k: "0 < k" "k < ncols D"
    and ok: "\<forall>r\<in>set (rows D). argpartition_ok argpartition r k"
  shows "\<exists>B. CSMToBinary float_mul argpartition D Kappa = Inr B \<and>
           nrows B = nrows D \<and> ncols B = ncols D \<and> wf_matrix B \<and>
           (\<forall>i<nrows D.
              length (filter (\<lambda>v. v = 1) (rows B ! i)) = k \<and>
              (\<forall>j<ncols D. ent B i j = 0 \<or> ent B i j = 1) \<and>
              (\<forall>j<ncols D. \<forall>j'<ncols D.
                 ent B i j = 1 \<and> ent B i j' = 0 \<longrightarrow> ent D i j \<le> ent D i j'))"
proof -
  let ?B = "coo_toarray (zip (replicate (nrows D * k) 1)
            (zip (concat (map (\<lambda>i. replicate k i) [0..<nrows D]))
                 (concat (map (\<lambda>r. take k (argpartition r k)) (rows D))))) (nrows D) (ncols D)"
  have nz: "num_val Kappa \<noteq> 0"
    and nc: "neighbour_count float_mul Kappa (ncols D) = Inr (int k)"
    using kappa k(1) by (auto simp: neighbour_count_def)
  have len: "length (rows D) = nrows D" and rlen: "\<forall>r\<in>set (rows D). length r = ncols D"
    using wf by (simp_all add: wf_matrix_def list_all_iff)
  have "\<forall>r\<in>set (rows D). length (take k (argpartition r k)) = k"
    using ok rlen k(2) argpartition_take(1) by metis
  then have "length (concat (map (\<lambda>r. take k (argpartition r k)) (rows D))) = nrows D * k"
    using length_concat_const [of "rows D" "\<lambda>r. take k (argpartition r k)" k] len by simp
  then have res: "CSMToBinary float_mul argpartition D Kappa = Inr ?B"
    using nz nc k by (simp add: CSMToBinary_def Let_def)
  have shape: "nrows ?B = nrows D" "ncols ?B = ncols D" "wf_matrix ?B"
    by (simp_all add: coo_toarray_def mk_matrix_def wf_matrix_def list_all_iff)
  have rowprop: "length (filter (\<lambda>v. v = 1) (rows ?B ! i)) = k \<and>
              (\<forall>j<ncols D. ent ?B i j = 0 \<or> ent ?B i j = 1) \<and>
              (\<forall>j<ncols D. \<forall>j'<ncols D.
                 ent ?B i j = 1 \<and> ent ?B i j' = 0 \<longrightarrow> ent D i j \<le> ent D i j')"
    if i: "i < nrows D" for i
  proof -
    let ?r = "rows D ! i"
    let ?S = "set (take k (argpartition ?r k))"
    have row: "?r \<in> set (rows D)" using i len by simp
    then have okr: "argpartition_ok argpartition ?r k" and kr: "k < length ?r"
      using ok rlen k(2) by auto
    have e: "ent ?B i j = (if j \<in> ?S then 1 else 0)" if "j < ncols D" for j
      using CSMToBinary_entries [OF wf k(2) ok i that] .
    have "rows ?B ! i = map (\<lambda>j. ent ?B i j) [0..<ncols D]"
      using i by (simp add: coo_toarray_def mk_matrix_def ent_def)
    also have "\<dots> = map (\<lambda>j. if j \<in> ?S then 1 else 0) [0..<ncols D]"
      by (intro map_cong refl) (simp add: e)
    finally have "length (filter (\<lambda>v. v = 1) (rows ?B ! i)) = card ?S"
      using count_ones_indicator [of ?S "ncols D"] argpartition_take(3) [OF okr kr] row rlen
      by simp
    then have "length (filter (\<lambda>v. v = 1) (rows ?B ! i)) = k"
      using argpartition_take(1,2) [OF okr kr] distinct_card [of "take k (argpartition ?r k)"]
      by simp
    moreover have "ent D i j \<le> ent D i j'"
      if "j < ncols D" "j' < ncols D" "ent ?B i j = 1" "ent ?B i j' = 0" for j j'
    proof -
      have "j \<in> ?S" and "j' \<notin> ?S"
        using that e [of j] e [of j'] by (auto split: if_splits)
      then show ?thesis
        using argpartition_smallest [OF okr kr, of j j'] that(2) row rlen by (simp add: ent_def)
    qed
    ultimately show ?thesis using e by auto
  qed
  show ?thesis using res shape rowprop by blast
qed

text \<open>
  The witness takes \<open>Kappa = 0.5\<close> and \<open>M = 3\<close>: the product of the doubles, 1.5, is
  exact, and it rounds to the even neighbour 2.
\<close>

theorem CSMToBinary_nearest_neighbours_witness:
  "wf_matrix \<lparr>nrows = 2, ncols = 3, rows = [[5, 3, 7], [2, 1, 3]]\<rparr> \<and>
   ((PyFloat 0.5 = PyFloat 0.5 \<and> (0::real) < 0.5 \<and> (0.5::real) < 1 \<and>
     np_round ((\<lambda>a b. a * b) 0.5 (real (ncols \<lparr>nrows = 2, ncols = 3, rows = [[5, 3, 7], [2, 1, 3]]\<rparr>))) = int 2)
    \<or> PyFloat 0.5 = PyInt (int 2)) \<and>
   (0::nat) < 2 \<and> 2 < ncols \<lparr>nrows = 2, ncols = 3, rows = [[5, 3, 7], [2, 1, 3]]\<rparr> \<and>
   argpartition_ok (\<lambda>r k. [1, 0, 2]) [5, 3, 7] 2 \<and>
   argpartition_ok (\<lambda>r k. [1, 0, 2]) [2, 1, 3] 2 \<and>
   (\<exists>B. CSMToBinary (\<lambda>a b. a * b) (\<lambda>r k. [1, 0, 2]) \<lparr>nrows = 2, ncols = 3, rows = [[5, 3, 7], [2, 1, 3]]\<rparr> (PyFloat 0.5) = Inr B \<and>
           nrows B = nrows \<lparr>nrows = 2, ncols = 3, rows = [[5, 3, 7], [2, 1, 3]]\<rparr> \<and> ncols B = ncols \<lparr>nrows = 2, ncols = 3, rows = [[5, 3, 7], [2, 1, 3]]\<rparr> \<and> wf_matrix B \<and>
           (\<forall>i<nrows \<lparr>nrows = 2, ncols = 3, rows = [[5, 3, 7], [2, 1, 3]]\<rparr>.
              length (filter (\<lambda>v. v = 1) (rows B ! i)) = 2 \<and>
              (\<forall>j<ncols \<lparr>nrows = 2, ncols = 3, rows = [[5, 3, 7], [2, 1, 3]]\<rparr>. ent B i j = 0 \<or> ent B i j = 1) \<and>
              (\<forall>j<ncols \<lparr>nrows = 2, ncols = 3, rows = [[5, 3, 7], [2, 1, 3]]\<rparr>. \<forall>j'<ncols \<lparr>nrows = 2, ncols = 3, rows = [[5, 3, 7], [2, 1, 3]]\<rparr>.
                 ent B i j = 1 \<and> ent B i j' = 0 \<longrightarrow> ent \<lparr>nrows = 2, ncols = 3, rows = [[5, 3, 7], [2, 1, 3]]\<rparr> i j \<le> ent \<lparr>nrows = 2, ncols = 3, rows = [[5, 3, 7], [2, 1, 3]]\<rparr> i j')))"
proof -
  have h1: "wf_matrix \<lparr>nrows = 2, ncols = 3, rows = [[5, 3, 7], [2, 1, 3]]\<rparr>"
    by (simp add: wf_matrix_def)
  have h2: "(PyFloat 0.5 = PyFloat 0.5 \<and> (0::real) < 0.5 \<and> (0.5::real) < 1 \<and>
     np_round ((\<lambda>a b. a * b) 0.5 (real (ncols \<lparr>nrows = 2, ncols = 3, rows = [[5, 3, 7], [2, 1, 3]]\<rparr>))) = int 2)
    \<or> PyFloat 0.5 = PyInt (int 2)"
    by (simp add: np_round_def)
  have h3: "(0::nat) < 2" and h4: "2 < ncols \<lparr>nrows = 2, ncols = 3, rows = [[5, 3, 7], [2, 1, 3]]\<rparr>"
    by simp_all
  have r0: "argpartition_ok (\<lambda>r k. [1, 0, 2]) [5, 3, 7] 2"
    and r1: "argpartition_ok (\<lambda>r k. [1, 0, 2]) [2, 1, 3] 2"
    by (simp_all add: argpartition_ok_def upt_conv_Cons numeral_2_eq_2)
  then have h5: "\<forall>r\<in>set (rows \<lparr>nrows = 2, ncols = 3, rows = [[5, 3, 7], [2, 1, 3]]\<rparr>). argpartition_ok (\<lambda>r k. [1, 0, 2]) r 2"
    by simp
  show ?thesis
    using h1 h2 h3 h4 r0 r1 CSMToBinary_nearest_neighbours [where float_mul = "\<lambda>a b. a * b", OF h1 h2 h3 h4 h5]
    by blast
qed

section \<open>Properties of the persistence score\<close>

text \<open>
  C4 (as amended). When the homology routine raises on the self-similarity matrix \<open>D\<close>,
  \<^verbatim>\<open>getPersistencesBlock\<close> returns normally, with \<open>D\<close>, the score 0 and the feature
  array assigned before the call, the single pair \<open>(0, 0)\<close>.
\<close>

theorem getPersistencesBlock_homology_failure:
  "getCSM (getSlidingWindow XP dim' estimateFreq derivWin)
          (getSlidingWindow XP dim' estimateFreq derivWin) = Inr D \<Longrightarrow>
   doRipsFiltrationDM D 1 41 = Inl e \<Longrightarrow>
   getPersistencesBlock getSlidingWindow doRipsFiltrationDM XP dim' estimateFreq derivWin
     = Inr \<lparr>block_D = D, block_P = 0, block_I = [(0, 0)]\<rparr>"
  by (simp add: getPersistencesBlock_def)

theorem getPersistencesBlock_homology_failure_witness:
  "getCSM ((\<lambda>XP d e w. XP) \<lparr>nrows = 1, ncols = 1, rows = [[3]]\<rparr> 1 False (- 1))
          ((\<lambda>XP d e w. XP) \<lparr>nrows = 1, ncols = 1, rows = [[3]]\<rparr> 1 False (- 1))
     = Inr \<lparr>nrows = 1, ncols = 1, rows = [[0]]\<rparr> \<and>
   (\<lambda>D k c. Inl ValueError) \<lparr>nrows = 1, ncols = 1, rows = [[0]]\<rparr> (1::nat) (41::nat)
     = (Inl ValueError :: error + (real \<times> real) list list) \<and>
   getPersistencesBlock (\<lambda>XP d e w. XP) (\<lambda>D k c. Inl ValueError)
       \<lparr>nrows = 1, ncols = 1, rows = [[3]]\<rparr> 1 False (- 1)
     = Inr \<lparr>block_D = \<lparr>nrows = 1, ncols = 1, rows = [[0]]\<rparr>, block_P = 0, block_I = [(0, 0)]\<rparr>"
  using getPersistencesBlock_homology_failure
    [of "\<lambda>XP d e w. XP" "\<lparr>nrows = 1, ncols = 1, rows = [[3]]\<rparr>" 1 False "- 1"
        "\<lparr>nrows = 1, ncols = 1, rows = [[0]]\<rparr>" "\<lambda>D k c. Inl ValueError" ValueError]
  by (simp add: getCSM_def mk_matrix_def ent_def)

text \<open>
  C4 (as stated) fails: with a homology routine that raises, the feature list of the
  result is \<open>[(0, 0)]\<close>, which is not empty.
\<close>

theorem getPersistencesBlock_failure_features:
  "map_sum id block_I (getPersistencesBlock (\<lambda>XP d e w. XP) (\<lambda>D k c. Inl ValueError)
      \<lparr>nrows = 1, ncols = 1, rows = [[0]]\<rparr> 1 False (- 1)) = Inr [(0, 0)] \<and>
   map_sum id block_I (getPersistencesBlock (\<lambda>XP d e w. XP) (\<lambda>D k c. Inl ValueError)
      \<lparr>nrows = 1, ncols = 1, rows = [[0]]\<rparr> 1 False (- 1)) \<noteq> Inr []"
  by (simp add: getPersistencesBlock_def getCSM_def Let_def)

end
